theory Spec2Isabelle
  imports Main "HOL-Library.AList"
begin

section \<open>Values, exceptions and the collaborators of the facade\<close>

text \<open>
  The repository is one class, \<open>SecureStorage\<close> (src/index.ts), wrapping an object of
  the platform's \<open>Storage\<close> interface and three caller-supplied functions. The class stores
  \<open>any\<close> value through \<open>JSON.stringify\<close> and reads it back through \<open>JSON.parse\<close>.

  Logical values are the JSON data model. The facade never inspects a number, so the
  number type is a parameter \<open>'n\<close>. JavaScript's \<open>null\<close> is \<open>JNull\<close>: it is both the
  value \<open>getItem\<close> returns for an absent entry and the value \<open>JSON.parse\<close> returns for
  the text \<open>null\<close>, and the model keeps them the same value, as the code does.
\<close>

datatype 'n json =
    JNull
  | JBool bool
  | JNum 'n
  | JStr string
  | JArr "'n json list"
  | JObj "(string \<times> 'n json) list"

text \<open>
  Exceptions are values. The source has no \<open>throw\<close> and no \<open>try\<close>: an exception can only
  come from \<open>JSON.parse\<close> (a \<open>SyntaxError\<close>) or from the backing store's \<open>setItem\<close>
  (a \<open>DOMException\<close>, e.g. \<open>QuotaExceededError\<close>), and it leaves the method that
  made the call. The payload is the exception's name or message.
\<close>

datatype exn = SyntaxError string | DOMException string

text \<open>
  The backing store is the constructor's parameter \<open>storage: T\<close>, \<open>T extends Storage\<close>.
  It is not code of the repository, so it is a parameter of the model: a record of the six
  members the class uses, over a state type \<open>'s\<close> of the store's content. The mutating
  members return the new state. \<open>getItem\<close> and \<open>key\<close> return \<open>string | null\<close>
  (\<open>None\<close> is \<open>null\<close>); \<open>setItem\<close> is the one member documented to throw, and a
  write that throws is rejected: it yields the exception and no new state, the store
  stays as it was. \<open>length\<close> and the argument of \<open>key\<close> are non-negative integers.
\<close>

record 's Storage =
  st_getItem :: "'s \<Rightarrow> string \<Rightarrow> string option"
  st_setItem :: "'s \<Rightarrow> string \<Rightarrow> string \<Rightarrow> exn + 's"
  st_removeItem :: "'s \<Rightarrow> string \<Rightarrow> 's"
  st_clear :: "'s \<Rightarrow> 's"
  st_key :: "'s \<Rightarrow> nat \<Rightarrow> string option"
  st_length :: "'s \<Rightarrow> nat"

text \<open>
  The global \<open>JSON\<close> object, likewise a parameter: \<open>stringify\<close> on a JSON-representable
  value returns a text, \<open>parse\<close> returns a value or throws.
\<close>

record 'n JSON =
  stringify :: "'n json \<Rightarrow> string"
  parse :: "string \<Rightarrow> exn + 'n json"

section \<open>The class SecureStorage\<close>

text \<open>\<open>const through = <T>(data: T): T => data\<close>\<close>

definition through :: "'a \<Rightarrow> 'a" where
  "through data = data"

text \<open>
  The private fields, fixed by the constructor. The three transforms have the source's
  type \<open>(x: string) => string\<close> and are pure functions of their argument, as the spec
  has them: the same text in gives the same text out, and a call returns.
\<close>

record 's SecureStorage =
  storage :: "'s Storage"
  hash :: "string \<Rightarrow> string"
  encrypt :: "string \<Rightarrow> string"
  decrypt :: "string \<Rightarrow> string"

text \<open>The constructor's second parameter: each member may be missing.\<close>

record Options =
  hash_option :: "(string \<Rightarrow> string) option"
  encrypt_option :: "(string \<Rightarrow> string) option"
  decrypt_option :: "(string \<Rightarrow> string) option"

text \<open>The default value \<open>{}\<close> of that parameter.\<close>

definition no_options :: Options where
  "no_options = \<lparr>hash_option = None, encrypt_option = None, decrypt_option = None\<rparr>"

text \<open>\<open>options.f || through\<close> for a member that is a function or missing.\<close>

definition or_through :: "(string \<Rightarrow> string) option \<Rightarrow> string \<Rightarrow> string" where
  "or_through f = (case f of None \<Rightarrow> through | Some g \<Rightarrow> g)"

definition SecureStorage_new :: "'s Storage \<Rightarrow> Options \<Rightarrow> 's SecureStorage" where
  "SecureStorage_new st options =
     \<lparr>storage = st,
      hash = or_through (hash_option options),
      encrypt = or_through (encrypt_option options),
      decrypt = or_through (decrypt_option options)\<rparr>"

text \<open>
  \<open>getItem(key)\<close>: hash the key, read the store, return \<open>null\<close> on \<open>null\<close>, otherwise
  decrypt and parse. A \<open>SyntaxError\<close> of \<open>JSON.parse\<close> is the result.
\<close>

definition getItem :: "'n JSON \<Rightarrow> 's SecureStorage \<Rightarrow> 's \<Rightarrow> string \<Rightarrow> exn + 'n json" where
  "getItem J this s k =
     (let hashedKey = hash this k;
          val = st_getItem (storage this) s hashedKey
      in case val of
           None \<Rightarrow> Inr JNull
         | Some raw \<Rightarrow>
             (let decryptedValue = decrypt this raw
              in parse J decryptedValue))"

text \<open>
  \<open>setItem(key, value)\<close>: hash the key, stringify, encrypt, one write to the store.
  The store's exception, if any, is the result; otherwise the store's new state.
\<close>

definition setItem :: "'n JSON \<Rightarrow> 's SecureStorage \<Rightarrow> 's \<Rightarrow> string \<Rightarrow> 'n json \<Rightarrow> exn + 's" where
  "setItem J this s k v =
     (let hashedKey = hash this k;
          stringifiedValue = stringify J v;
          encryptedValue = encrypt this stringifiedValue
      in st_setItem (storage this) s hashedKey encryptedValue)"

definition removeItem :: "'s SecureStorage \<Rightarrow> 's \<Rightarrow> string \<Rightarrow> 's" where
  "removeItem this s k =
     (let hashedKey = hash this k
      in st_removeItem (storage this) s hashedKey)"

definition clear :: "'s SecureStorage \<Rightarrow> 's \<Rightarrow> 's" where
  "clear this s = st_clear (storage this) s"

definition key :: "'s SecureStorage \<Rightarrow> 's \<Rightarrow> nat \<Rightarrow> string option" where
  "key this s ident = st_key (storage this) s ident"

text \<open>The getter \<open>length\<close>.\<close>

definition length_ss :: "'s SecureStorage \<Rightarrow> 's \<Rightarrow> nat" where
  "length_ss this s = st_length (storage this) s"

text \<open>
  \<open>keys()\<close>: the loop \<open>for (let i = 0; i < this.length; i++)\<close>, with the array built so
  far as accumulator. Reading \<open>length\<close> and \<open>key(i)\<close> does not change the store, so the
  state is the same at every iteration.
\<close>

function keys_loop :: "'s SecureStorage \<Rightarrow> 's \<Rightarrow> nat \<Rightarrow> string list \<Rightarrow> string list" where
  "keys_loop this s i ks =
     (if i < length_ss this s
      then (case key this s i of
              None \<Rightarrow> keys_loop this s (i + 1) ks
            | Some k \<Rightarrow> keys_loop this s (i + 1) (ks @ [k]))
      else ks)"
  by pat_completeness auto
termination
  by (relation "measure (\<lambda>(this, s, i, ks). length_ss this s - i)") auto

definition keys :: "'s SecureStorage \<Rightarrow> 's \<Rightarrow> string list" where
  "keys this s = keys_loop this s 0 []"

text \<open>
  \<open>Array.prototype.map\<close> with a callback that may throw: the elements are visited in
  order and the first exception ends the call.
\<close>

fun array_map :: "('a \<Rightarrow> exn + 'b) \<Rightarrow> 'a list \<Rightarrow> exn + 'b list" where
  "array_map f [] = Inr []"
| "array_map f (x # xs) =
     (case f x of
        Inl e \<Rightarrow> Inl e
      | Inr y \<Rightarrow> (case array_map f xs of Inl e \<Rightarrow> Inl e | Inr ys \<Rightarrow> Inr (y # ys)))"

text \<open>\<open>values()\<close>: \<open>this.keys().map((key) => this.getItem(key))\<close>\<close>

definition values_ss :: "'n JSON \<Rightarrow> 's SecureStorage \<Rightarrow> 's \<Rightarrow> exn + 'n json list" where
  "values_ss J this s = array_map (\<lambda>k. getItem J this s k) (keys this s)"

text \<open>\<open>entries()\<close>: \<open>this.keys().map((key) => [key, this.getItem(key)])\<close>\<close>

definition entries :: "'n JSON \<Rightarrow> 's SecureStorage \<Rightarrow> 's \<Rightarrow> exn + (string \<times> 'n json) list" where
  "entries J this s =
     array_map (\<lambda>k. case getItem J this s k of Inl e \<Rightarrow> Inl e | Inr v \<Rightarrow> Inr (k, v))
       (keys this s)"

section \<open>Client scenarios and the contract of the backing store\<close>

text \<open>
  The physical entry \<open>setItem(key, value)\<close> hands to the store: the hashed key and the
  encrypted text of the value, as computed in the body of \<open>setItem\<close>.
\<close>

definition physical_entry :: "'n JSON \<Rightarrow> 's SecureStorage \<Rightarrow> string \<times> 'n json \<Rightarrow> string \<times> string" where
  "physical_entry J this kv = (hash this (fst kv), encrypt this (stringify J (snd kv)))"

text \<open>
  A caller writing a list of logical entries, one \<open>setItem\<close> call after the other; the
  first exception ends the sequence.
\<close>

fun setItems :: "'n JSON \<Rightarrow> 's SecureStorage \<Rightarrow> 's \<Rightarrow> (string \<times> 'n json) list \<Rightarrow> exn + 's" where
  "setItems J this s [] = Inr s"
| "setItems J this s ((k, v) # kvs) =
     (case setItem J this s k v of
        Inl e \<Rightarrow> Inl e
      | Inr s' \<Rightarrow> setItems J this s' kvs)"

text \<open>
  What the facade expects of the store it wraps (the spec takes the store as already
  correct). Each theorem below assumes only the part it needs.
  \<^item> \<open>reads_back_writes\<close>: a successful \<open>setItem(k, v)\<close> makes \<open>getItem(k)\<close> return \<open>v\<close>;
  \<^item> \<open>writes_one_key\<close>: it changes what \<open>getItem\<close> returns at no other key;
  \<^item> \<open>removes_entry\<close>, \<open>removes_one_key\<close>: the same two for \<open>removeItem\<close>;
  \<^item> \<open>clears_all\<close>: after \<open>clear()\<close> the length is 0 and every \<open>getItem\<close> is \<open>null\<close>;
  \<^item> \<open>enumerates S s\<close>: in state \<open>s\<close>, the non-null results of \<open>key(0)\<close> \<open>\<dots>\<close>
    \<open>key(length - 1)\<close> list every key that has an entry, each once.
\<close>

definition reads_back_writes :: "'s Storage \<Rightarrow> bool" where
  "reads_back_writes S \<longleftrightarrow>
     (\<forall>s k v s'. st_setItem S s k v = Inr s' \<longrightarrow> st_getItem S s' k = Some v)"

definition writes_one_key :: "'s Storage \<Rightarrow> bool" where
  "writes_one_key S \<longleftrightarrow>
     (\<forall>s k v s' k'. st_setItem S s k v = Inr s' \<longrightarrow> k' \<noteq> k \<longrightarrow>
        st_getItem S s' k' = st_getItem S s k')"

definition removes_entry :: "'s Storage \<Rightarrow> bool" where
  "removes_entry S \<longleftrightarrow> (\<forall>s k. st_getItem S (st_removeItem S s k) k = None)"

definition removes_one_key :: "'s Storage \<Rightarrow> bool" where
  "removes_one_key S \<longleftrightarrow>
     (\<forall>s k k'. k' \<noteq> k \<longrightarrow> st_getItem S (st_removeItem S s k) k' = st_getItem S s k')"

definition clears_all :: "'s Storage \<Rightarrow> bool" where
  "clears_all S \<longleftrightarrow>
     (\<forall>s. st_length S (st_clear S s) = 0 \<and> (\<forall>k. st_getItem S (st_clear S s) k = None))"

definition enumerates :: "'s Storage \<Rightarrow> 's \<Rightarrow> bool" where
  "enumerates S s \<longleftrightarrow>
     distinct (List.map_filter (st_key S s) [0..<st_length S s]) \<and>
     set (List.map_filter (st_key S s) [0..<st_length S s]) = dom (st_getItem S s)"

text \<open>A key transform \<open>t\<close> with \<open>t(t(x)) == t(x)\<close> for all \<open>x\<close>.\<close>

definition idempotent :: "(string \<Rightarrow> string) \<Rightarrow> bool" where
  "idempotent t \<longleftrightarrow> (\<forall>x. t (t x) = t x)"

section \<open>A reference backing store and a reference JSON\<close>

text \<open>
  Modelled from the spec: the backing store is an external collaborator (a browser's
  \<open>localStorage\<close>), described in the spec as an ordered collection of (key, value) text
  pairs with get, set, remove, clear, key-at-position and a count, where set fails on
  resource exhaustion. \<open>web_storage quota\<close> is that collection as an association list
  in enumeration order: a new key is appended, an existing key keeps its position, and a
  write that would take the stored characters past \<open>quota\<close> throws and stores nothing.
  It instantiates the store in the closed examples of this theory.
\<close>

definition ws_size :: "(string \<times> string) list \<Rightarrow> nat" where
  "ws_size s = sum_list (map (\<lambda>(k, v). length k + length v) s)"

definition web_storage :: "nat \<Rightarrow> (string \<times> string) list Storage" where
  "web_storage quota =
     \<lparr>st_getItem = (\<lambda>s k. map_of s k),
      st_setItem = (\<lambda>s k v.
         let s' = AList.update k v s
         in if ws_size s' \<le> quota then Inr s' else Inl (DOMException ''QuotaExceededError'')),
      st_removeItem = (\<lambda>s k. AList.delete k s),
      st_clear = (\<lambda>s. []),
      st_key = (\<lambda>s i. if i < length s then Some (fst (s ! i)) else None),
      st_length = (\<lambda>s. length s)\<rparr>"

text \<open>
  Modelled from the spec: the serialization is an external collaborator too ("a standard
  text-based structured-data interchange format"). \<open>json_text\<close> writes a value with
  integer numbers as compact JSON text, escaping the quote and the backslash in strings;
  \<open>json_parse\<close> reads JSON text of that fragment (with optional white space) by
  recursive descent, with the length of the text as fuel, and throws a \<open>SyntaxError\<close> on
  anything else. They instantiate \<open>JSON\<close> in the closed examples of this theory.
\<close>

fun nat_digits :: "nat \<Rightarrow> string" where
  "nat_digits n =
     (if n < 10 then [''0123456789'' ! n]
      else nat_digits (n div 10) @ [''0123456789'' ! (n mod 10)])"

definition num_text :: "int \<Rightarrow> string" where
  "num_text i = (if i < 0 then CHR ''-'' # nat_digits (nat (- i)) else nat_digits (nat i))"

fun quote_chars :: "string \<Rightarrow> string" where
  "quote_chars [] = []"
| "quote_chars (c # cs) =
     (if c = CHR 0x22 \<or> c = CHR 0x5C then CHR 0x5C # c # quote_chars cs
      else c # quote_chars cs)"

definition quote :: "string \<Rightarrow> string" where
  "quote s = CHR 0x22 # quote_chars s @ [CHR 0x22]"

fun commas :: "string list \<Rightarrow> string" where
  "commas [] = []"
| "commas [x] = x"
| "commas (x # y # zs) = x @ CHR '','' # commas (y # zs)"

fun json_text :: "int json \<Rightarrow> string" where
  "json_text JNull = ''null''"
| "json_text (JBool b) = (if b then ''true'' else ''false'')"
| "json_text (JNum i) = num_text i"
| "json_text (JStr s) = quote s"
| "json_text (JArr vs) = CHR ''['' # commas (map json_text vs) @ '']''"
| "json_text (JObj ms) =
     CHR ''{'' # commas (map (\<lambda>(k, v). quote k @ CHR '':'' # json_text v) ms) @ ''}''"

definition is_ws :: "char \<Rightarrow> bool" where
  "is_ws c \<longleftrightarrow> c = CHR '' '' \<or> c = CHR 0x09 \<or> c = CHR 0x0A \<or> c = CHR 0x0D"

definition is_digit :: "char \<Rightarrow> bool" where
  "is_digit c \<longleftrightarrow> 48 \<le> (of_char c :: nat) \<and> (of_char c :: nat) \<le> 57"

definition skip_ws :: "string \<Rightarrow> string" where
  "skip_ws cs = dropWhile is_ws cs"

definition digits_value :: "string \<Rightarrow> nat" where
  "digits_value ds = foldl (\<lambda>a c. 10 * a + (of_char c - 48)) 0 ds"

definition read_number :: "string \<Rightarrow> (int json \<times> string) option" where
  "read_number cs =
     (let neg = (case cs of [] \<Rightarrow> False | c # _ \<Rightarrow> c = CHR ''-'');
          body = (if neg then tl cs else cs);
          ds = takeWhile is_digit body
      in if ds = [] \<or> (hd ds = CHR ''0'' \<and> tl ds \<noteq> []) then None
         else Some (JNum (if neg then - int (digits_value ds) else int (digits_value ds)),
                    dropWhile is_digit body))"

fun read_string :: "string \<Rightarrow> (string \<times> string) option" where
  "read_string [] = None"
| "read_string (c # cs) =
     (if c = CHR 0x22 then Some ([], cs)
      else if c = CHR 0x5C then
        (case cs of
           [] \<Rightarrow> None
         | d # ds \<Rightarrow>
             if d = CHR 0x22 \<or> d = CHR 0x5C
             then (case read_string ds of None \<Rightarrow> None | Some (t, r) \<Rightarrow> Some (d # t, r))
             else None)
      else (case read_string cs of None \<Rightarrow> None | Some (t, r) \<Rightarrow> Some (c # t, r)))"

definition read_word :: "string \<Rightarrow> 'a \<Rightarrow> string \<Rightarrow> ('a \<times> string) option" where
  "read_word w v cs = (if take (length w) cs = w then Some (v, drop (length w) cs) else None)"

fun read_value :: "nat \<Rightarrow> string \<Rightarrow> (int json \<times> string) option"
  and read_elements :: "nat \<Rightarrow> string \<Rightarrow> (int json list \<times> string) option"
  and read_members :: "nat \<Rightarrow> string \<Rightarrow> ((string \<times> int json) list \<times> string) option"
where
  "read_value 0 cs = None"
| "read_value (Suc n) cs =
     (case skip_ws cs of
        [] \<Rightarrow> None
      | c # r \<Rightarrow>
          if c = CHR ''n'' then read_word ''ull'' JNull r
          else if c = CHR ''t'' then read_word ''rue'' (JBool True) r
          else if c = CHR ''f'' then read_word ''alse'' (JBool False) r
          else if c = CHR 0x22 then
            (case read_string r of None \<Rightarrow> None | Some (t, r') \<Rightarrow> Some (JStr t, r'))
          else if c = CHR ''['' then
            (case skip_ws r of
               [] \<Rightarrow> None
             | d # r' \<Rightarrow>
                 if d = CHR '']'' then Some (JArr [], r')
                 else (case read_elements n r of
                         None \<Rightarrow> None
                       | Some (vs, r'') \<Rightarrow> Some (JArr vs, r'')))
          else if c = CHR ''{'' then
            (case skip_ws r of
               [] \<Rightarrow> None
             | d # r' \<Rightarrow>
                 if d = CHR ''}'' then Some (JObj [], r')
                 else (case read_members n r of
                         None \<Rightarrow> None
                       | Some (ms, r'') \<Rightarrow> Some (JObj ms, r'')))
          else read_number (c # r))"
| "read_elements 0 cs = None"
| "read_elements (Suc n) cs =
     (case read_value n cs of
        None \<Rightarrow> None
      | Some (v, r) \<Rightarrow>
          (case skip_ws r of
             [] \<Rightarrow> None
           | d # r' \<Rightarrow>
               if d = CHR '']'' then Some ([v], r')
               else if d = CHR '','' then
                 (case read_elements n r' of
                    None \<Rightarrow> None
                  | Some (vs, r'') \<Rightarrow> Some (v # vs, r''))
               else None))"
| "read_members 0 cs = None"
| "read_members (Suc n) cs =
     (case skip_ws cs of
        [] \<Rightarrow> None
      | q # r0 \<Rightarrow>
          if q \<noteq> CHR 0x22 then None
          else (case read_string r0 of
                  None \<Rightarrow> None
                | Some (k, r1) \<Rightarrow>
                    (case skip_ws r1 of
                       [] \<Rightarrow> None
                     | colon # r2 \<Rightarrow>
                         if colon \<noteq> CHR '':'' then None
                         else (case read_value n r2 of
                                 None \<Rightarrow> None
                               | Some (v, r3) \<Rightarrow>
                                   (case skip_ws r3 of
                                      [] \<Rightarrow> None
                                    | d # r4 \<Rightarrow>
                                        if d = CHR ''}'' then Some ([(k, v)], r4)
                                        else if d = CHR '','' then
                                          (case read_members n r4 of
                                             None \<Rightarrow> None
                                           | Some (ms, r5) \<Rightarrow> Some ((k, v) # ms, r5))
                                        else None)))))"

definition json_parse :: "string \<Rightarrow> exn + int json" where
  "json_parse text =
     (case read_value (Suc (length text)) text of
        None \<Rightarrow> Inl (SyntaxError text)
      | Some (v, r) \<Rightarrow> if skip_ws r = [] then Inr v else Inl (SyntaxError text))"

definition ref_JSON :: "int JSON" where
  "ref_JSON = \<lparr>stringify = json_text, parse = json_parse\<rparr>"

text \<open>A deserializer that rejects every text.\<close>

definition rejecting_parse :: "string \<Rightarrow> exn + int json" where
  "rejecting_parse text = Inl (SyntaxError text)"

subsection \<open>Example transforms and instances\<close>

text \<open>
  \<open>tag_hash\<close> prefixes a key once: idempotent, not the identity. \<open>suffix_hash\<close> appends a
  character at every application: not idempotent. \<open>const_hash\<close> sends every key to the
  same text: idempotent, not injective. The example cipher is string reversal, its own
  inverse.
\<close>

definition tag_hash :: "string \<Rightarrow> string" where
  "tag_hash k = (if take 2 k = ''h:'' then k else ''h:'' @ k)"

definition suffix_hash :: "string \<Rightarrow> string" where
  "suffix_hash k = k @ ''x''"

definition const_hash :: "string \<Rightarrow> string" where
  "const_hash k = ''h''"

text \<open>\<open>new SecureStorage(localStorage)\<close>: all three transforms are \<open>through\<close>.\<close>

definition plain_store :: "(string \<times> string) list SecureStorage" where
  "plain_store = SecureStorage_new (web_storage 64) no_options"

definition mirror_store :: "(string \<times> string) list SecureStorage" where
  "mirror_store =
     SecureStorage_new (web_storage 64)
       \<lparr>hash_option = Some tag_hash, encrypt_option = Some rev, decrypt_option = Some rev\<rparr>"

definition chained_store :: "(string \<times> string) list SecureStorage" where
  "chained_store =
     SecureStorage_new (web_storage 64)
       \<lparr>hash_option = Some suffix_hash, encrypt_option = None, decrypt_option = None\<rparr>"

definition colliding_store :: "(string \<times> string) list SecureStorage" where
  "colliding_store =
     SecureStorage_new (web_storage 64)
       \<lparr>hash_option = Some const_hash, encrypt_option = None, decrypt_option = None\<rparr>"

text \<open>
  A store whose count runs one ahead of its keys, as when an entry disappears while the
  keys are enumerated: \<open>key(length - 1)\<close> is \<open>null\<close>.
\<close>

definition stale_store :: "(string \<times> string) list SecureStorage" where
  "stale_store =
     SecureStorage_new ((web_storage 64)\<lparr>st_length := (\<lambda>s. length s + 1)\<rparr>)
       \<lparr>hash_option = Some suffix_hash, encrypt_option = None, decrypt_option = None\<rparr>"

section \<open>The reference store keeps the contract\<close>

lemma web_storage_reads_back_writes: "reads_back_writes (web_storage quota)"
  by (auto simp: reads_back_writes_def web_storage_def Let_def update_conv' split: if_splits)

lemma web_storage_writes_one_key: "writes_one_key (web_storage quota)"
  by (auto simp: writes_one_key_def web_storage_def Let_def update_conv' split: if_splits)

lemma web_storage_removes_entry: "removes_entry (web_storage quota)"
  by (simp add: removes_entry_def web_storage_def delete_conv')

lemma web_storage_removes_one_key: "removes_one_key (web_storage quota)"
  by (simp add: removes_one_key_def web_storage_def delete_conv')

lemma web_storage_clears_all: "clears_all (web_storage quota)"
  by (simp add: clears_all_def web_storage_def)

lemma web_storage_key_list:
  "List.map_filter (st_key (web_storage quota) s) [0..<st_length (web_storage quota) s] = map fst s"
proof -
  have "List.map_filter (\<lambda>i. if i < length s then Some (fst (s ! i)) else None) [0..<length s]
        = map (\<lambda>i. fst (s ! i)) [0..<length s]"
    by (simp add: List.map_filter_def cong: map_cong filter_cong)
  also have "\<dots> = map fst s"
    by (simp add: map_nth flip: map_map[unfolded comp_def])
  finally show ?thesis by (simp add: web_storage_def)
qed

lemma web_storage_enumerates: "distinct (map fst s) \<Longrightarrow> enumerates (web_storage quota) s"
  unfolding enumerates_def web_storage_key_list
  by (simp add: web_storage_def dom_map_of_conv_image_fst)

lemma storage_plain_store: "storage plain_store = web_storage 64"
  by (simp add: plain_store_def SecureStorage_new_def)

lemma storage_mirror_store: "storage mirror_store = web_storage 64"
  by (simp add: mirror_store_def SecureStorage_new_def)

section \<open>Enumeration\<close>

declare keys_loop.simps [simp del]

lemma keys_loop_eq:
  "keys_loop this s i ks = ks @ List.map_filter (key this s) [i..<length_ss this s]"
proof (induction this s i ks rule: keys_loop.induct)
  case (1 this s i ks)
  show ?case
  proof (cases "i < length_ss this s")
    case False
    then show ?thesis
      by (subst keys_loop.simps) (simp add: List.map_filter_simps)
  next
    case True
    then have upt: "[i..<length_ss this s] = i # [i + 1..<length_ss this s]"
      by (simp add: upt_conv_Cons)
    show ?thesis
    proof (cases "key this s i")
      case None
      with True "1.IH"(1) upt show ?thesis
        by (subst keys_loop.simps) (simp add: List.map_filter_simps)
    next
      case (Some k)
      with True "1.IH"(2) upt show ?thesis
        by (subst keys_loop.simps) (simp add: List.map_filter_simps)
    qed
  qed
qed

lemma keys_eq:
  "keys this s = List.map_filter (st_key (storage this) s) [0..<st_length (storage this) s]"
proof -
  have "key this s = st_key (storage this) s"
    by (rule ext) (simp add: key_def)
  then show ?thesis
    by (simp add: keys_def keys_loop_eq length_ss_def)
qed

text \<open>
  Claim C7. For every state of the backing store, \<open>keys()\<close> is the sequence of the
  store's \<open>key(i)\<close> for \<open>i = 0, \<dots>, length - 1\<close> in that order, keeping each result
  that is a key and skipping each \<open>null\<close> (\<open>List.map_filter f xs\<close> is the list of the
  \<open>y\<close> with \<open>f x = Some y\<close>, for \<open>x\<close> along \<open>xs\<close>). The keys are returned as the
  store holds them: the key transform plays no part in \<open>keys()\<close>, whatever it is.
\<close>

theorem keys_enumeration:
  "keys this s = List.map_filter (st_key (storage this) s) [0..<st_length (storage this) s]
   \<and> keys (this\<lparr>hash := t\<rparr>) s = keys this s"
  by (simp add: keys_eq)

theorem keys_enumeration_witness:
  "length_ss stale_store [(''ax'', ''1''), (''bx'', ''2'')] = 3
   \<and> key stale_store [(''ax'', ''1''), (''bx'', ''2'')] 0 = Some ''ax''
   \<and> key stale_store [(''ax'', ''1''), (''bx'', ''2'')] 1 = Some ''bx''
   \<and> key stale_store [(''ax'', ''1''), (''bx'', ''2'')] 2 = None
   \<and> keys stale_store [(''ax'', ''1''), (''bx'', ''2'')] = [''ax'', ''bx'']
   \<and> keys (stale_store\<lparr>hash := rev\<rparr>) [(''ax'', ''1''), (''bx'', ''2'')] = [''ax'', ''bx'']"
proof -
  have n: "length_ss stale_store [(''ax'', ''1''), (''bx'', ''2'')] = 3"
    by code_simp
  have k0: "key stale_store [(''ax'', ''1''), (''bx'', ''2'')] 0 = Some ''ax''"
    by code_simp
  have k1: "key stale_store [(''ax'', ''1''), (''bx'', ''2'')] 1 = Some ''bx''"
    by code_simp
  have k2: "key stale_store [(''ax'', ''1''), (''bx'', ''2'')] 2 = None"
    by code_simp
  have "List.map_filter (st_key (storage stale_store) [(''ax'', ''1''), (''bx'', ''2'')])
          [0..<st_length (storage stale_store) [(''ax'', ''1''), (''bx'', ''2'')]] = [''ax'', ''bx'']"
    by code_simp
  with keys_enumeration[of stale_store "[(''ax'', ''1''), (''bx'', ''2'')]" rev] n k0 k1 k2
  show ?thesis by simp
qed

section \<open>Single reads and writes\<close>

lemma getItem_miss:
  "st_getItem (storage this) s (hash this k) = None \<Longrightarrow> getItem J this s k = Inr JNull"
  by (simp add: getItem_def)

lemma getItem_hit:
  "st_getItem (storage this) s (hash this k) = Some raw \<Longrightarrow>
   getItem J this s k = parse J (decrypt this raw)"
  by (simp add: getItem_def)

lemma setItem_delegates:
  "setItem J this s k v =
   st_setItem (storage this) s (fst (physical_entry J this (k, v))) (snd (physical_entry J this (k, v)))"
  by (simp add: setItem_def physical_entry_def)

lemma setItem_stored:
  assumes "reads_back_writes (storage this)" and "setItem J this s k v = Inr s'"
  shows "st_getItem (storage this) s' (hash this k) = Some (encrypt this (stringify J v))"
  using assms by (simp add: reads_back_writes_def setItem_def)

lemma setItem_others:
  assumes "writes_one_key (storage this)" and "setItem J this s k v = Inr s'"
    and "p \<noteq> hash this k"
  shows "st_getItem (storage this) s' p = st_getItem (storage this) s p"
  using assms by (simp add: writes_one_key_def setItem_def)

lemma roundtrip:
  assumes "reads_back_writes (storage this)"
    and "parse J (stringify J v) = Inr v"
    and "decrypt this (encrypt this (stringify J v)) = stringify J v"
    and "setItem J this s k v = Inr s'"
    and "st_getItem (storage this) s'' (hash this k) = st_getItem (storage this) s' (hash this k)"
  shows "getItem J this s'' k = Inr v"
  using setItem_stored[OF assms(1,4)] assms(2,3,5) by (simp add: getItem_hit)

lemma identity_transforms:
  "hash (SecureStorage_new S no_options) = through"
  "encrypt (SecureStorage_new S no_options) = through"
  "decrypt (SecureStorage_new S no_options) = through"
  "storage (SecureStorage_new S opts) = S"
  by (simp_all add: SecureStorage_new_def no_options_def or_through_def)

text \<open>
  Claim C1. Let the store read back what is written to it and let \<open>JSON.parse\<close> invert
  \<open>JSON.stringify\<close> on the value \<open>v\<close>. If \<open>decrypt\<close> inverts \<open>encrypt\<close> on the text of
  \<open>v\<close>, then after \<open>setItem(k, v)\<close>, in every later state \<open>s''\<close> of the store whose raw
  entry at the transformed key is still the one the write left (no other writer changed
  it; other entries may differ), \<open>getItem(k)\<close> returns \<open>v\<close>. So it does for an instance
  constructed without options, whose three transforms are the identity. The key
  transform is a function of the key, hence deterministic.
\<close>

theorem setItem_getItem_roundtrip:
  assumes "reads_back_writes S" and "parse J (stringify J v) = Inr v"
  shows "(storage this = S \<and> decrypt this (encrypt this (stringify J v)) = stringify J v
            \<and> setItem J this s k v = Inr s'
            \<and> st_getItem S s'' (hash this k) = st_getItem S s' (hash this k)
          \<longrightarrow> getItem J this s'' k = Inr v)
       \<and> (setItem J (SecureStorage_new S no_options) s k v = Inr s'
            \<and> st_getItem S s'' k = st_getItem S s' k
          \<longrightarrow> getItem J (SecureStorage_new S no_options) s'' k = Inr v)"
proof (intro conjI impI)
  assume "storage this = S \<and> decrypt this (encrypt this (stringify J v)) = stringify J v
            \<and> setItem J this s k v = Inr s'
            \<and> st_getItem S s'' (hash this k) = st_getItem S s' (hash this k)"
  with assms show "getItem J this s'' k = Inr v"
    by (auto intro: roundtrip)
next
  let ?plain = "SecureStorage_new S no_options"
  assume a: "setItem J ?plain s k v = Inr s' \<and> st_getItem S s'' k = st_getItem S s' k"
  have "reads_back_writes (storage ?plain)"
    using assms(1) by (simp add: identity_transforms)
  moreover note assms(2)
  moreover have "decrypt ?plain (encrypt ?plain (stringify J v)) = stringify J v"
    by (simp add: identity_transforms through_def)
  moreover from a have "setItem J ?plain s k v = Inr s'" ..
  moreover from a
  have "st_getItem (storage ?plain) s'' (hash ?plain k) = st_getItem (storage ?plain) s' (hash ?plain k)"
    by (simp add: identity_transforms through_def)
  ultimately show "getItem J ?plain s'' k = Inr v"
    by (rule roundtrip)
qed

text \<open>
  The scenario of the spec: the store is empty, \<open>{"x":1}\<close> is written under \<open>a\<close>, then
  another entry is written under \<open>b\<close>, and \<open>a\<close> reads back as \<open>{"x":1}\<close>; once with a
  prefixing key transform and string reversal as cipher, once with no options.
\<close>

theorem setItem_getItem_roundtrip_witness:
  "reads_back_writes (web_storage 64)
   \<and> parse ref_JSON (stringify ref_JSON (JObj [(''x'', JNum 1)])) = Inr (JObj [(''x'', JNum 1)])
   \<and> storage mirror_store = web_storage 64
   \<and> decrypt mirror_store (encrypt mirror_store (stringify ref_JSON (JObj [(''x'', JNum 1)])))
       = stringify ref_JSON (JObj [(''x'', JNum 1)])
   \<and> setItem ref_JSON mirror_store [] ''a'' (JObj [(''x'', JNum 1)]) = Inr [(''h:a'', ''}1:\"x\"{'')]
   \<and> setItem ref_JSON mirror_store [(''h:a'', ''}1:\"x\"{'')] ''b'' (JNum 2)
       = Inr [(''h:a'', ''}1:\"x\"{''), (''h:b'', ''2'')]
   \<and> getItem ref_JSON mirror_store [(''h:a'', ''}1:\"x\"{''), (''h:b'', ''2'')] ''a''
       = Inr (JObj [(''x'', JNum 1)])
   \<and> setItem ref_JSON (SecureStorage_new (web_storage 64) no_options) [] ''a'' (JObj [(''x'', JNum 1)])
       = Inr [(''a'', ''{\"x\":1}'')]
   \<and> setItem ref_JSON (SecureStorage_new (web_storage 64) no_options) [(''a'', ''{\"x\":1}'')] ''b'' (JNum 2)
       = Inr [(''a'', ''{\"x\":1}''), (''b'', ''2'')]
   \<and> getItem ref_JSON (SecureStorage_new (web_storage 64) no_options)
         [(''a'', ''{\"x\":1}''), (''b'', ''2'')] ''a''
       = Inr (JObj [(''x'', JNum 1)])"
proof -
  have law: "reads_back_writes (web_storage 64)"
    by (rule web_storage_reads_back_writes)
  have js: "parse ref_JSON (stringify ref_JSON (JObj [(''x'', JNum 1)])) = Inr (JObj [(''x'', JNum 1)])"
    by code_simp
  have st: "storage mirror_store = web_storage 64"
    by (rule storage_mirror_store)
  have inv: "decrypt mirror_store (encrypt mirror_store (stringify ref_JSON (JObj [(''x'', JNum 1)])))
       = stringify ref_JSON (JObj [(''x'', JNum 1)])"
    by code_simp
  have w1: "setItem ref_JSON mirror_store [] ''a'' (JObj [(''x'', JNum 1)]) = Inr [(''h:a'', ''}1:\"x\"{'')]"
    by code_simp
  have o1: "setItem ref_JSON mirror_store [(''h:a'', ''}1:\"x\"{'')] ''b'' (JNum 2)
       = Inr [(''h:a'', ''}1:\"x\"{''), (''h:b'', ''2'')]"
    by code_simp
  have same1: "st_getItem (web_storage 64) [(''h:a'', ''}1:\"x\"{''), (''h:b'', ''2'')] (hash mirror_store ''a'')
       = st_getItem (web_storage 64) [(''h:a'', ''}1:\"x\"{'')] (hash mirror_store ''a'')"
    by code_simp
  have w2: "setItem ref_JSON (SecureStorage_new (web_storage 64) no_options) [] ''a'' (JObj [(''x'', JNum 1)])
       = Inr [(''a'', ''{\"x\":1}'')]"
    by code_simp
  have o2: "setItem ref_JSON (SecureStorage_new (web_storage 64) no_options) [(''a'', ''{\"x\":1}'')] ''b'' (JNum 2)
       = Inr [(''a'', ''{\"x\":1}''), (''b'', ''2'')]"
    by code_simp
  have same2: "st_getItem (web_storage 64) [(''a'', ''{\"x\":1}''), (''b'', ''2'')] ''a''
       = st_getItem (web_storage 64) [(''a'', ''{\"x\":1}'')] ''a''"
    by code_simp
  note rt = setItem_getItem_roundtrip[OF law js]
  have r1: "getItem ref_JSON mirror_store [(''h:a'', ''}1:\"x\"{''), (''h:b'', ''2'')] ''a''
       = Inr (JObj [(''x'', JNum 1)])"
    using rt[of mirror_store "[]" "''a''" "[(''h:a'', ''}1:\"x\"{'')]"
             "[(''h:a'', ''}1:\"x\"{''), (''h:b'', ''2'')]"] st inv w1 same1
    by blast
  have r2: "getItem ref_JSON (SecureStorage_new (web_storage 64) no_options)
         [(''a'', ''{\"x\":1}''), (''b'', ''2'')] ''a''
       = Inr (JObj [(''x'', JNum 1)])"
    using rt[of mirror_store "[]" "''a''" "[(''a'', ''{\"x\":1}'')]"
             "[(''a'', ''{\"x\":1}''), (''b'', ''2'')]"] w2 same2
    by blast
  from law js st inv w1 o1 r1 w2 o2 r2 show ?thesis by - (intro conjI; assumption)
qed

text \<open>
  Claim C4. If the store has no entry at the transformed key, \<open>getItem(k)\<close> returns
  \<open>null\<close> and raises nothing. Neither the decoder nor the deserializer is applied: the
  result is the same when they are replaced by any other \<open>d\<close> and \<open>p\<close>, for instance by
  a deserializer that rejects every text.
\<close>

theorem getItem_absent:
  assumes "st_getItem (storage this) s (hash this k) = None"
  shows "getItem J this s k = Inr JNull
       \<and> getItem (J\<lparr>parse := p\<rparr>) (this\<lparr>decrypt := d\<rparr>) s k = Inr JNull"
  using assms by (simp add: getItem_miss)

theorem getItem_absent_witness:
  "st_getItem (storage mirror_store) [] (hash mirror_store ''a'') = None
   \<and> getItem ref_JSON mirror_store [] ''a'' = Inr JNull
   \<and> getItem (ref_JSON\<lparr>parse := rejecting_parse\<rparr>) (mirror_store\<lparr>decrypt := tl\<rparr>) [] ''a'' = Inr JNull
   \<and> removeItem mirror_store [(''h:a'', ''1''), (''h:b'', ''2'')] ''a'' = [(''h:b'', ''2'')]
   \<and> st_getItem (storage mirror_store) [(''h:b'', ''2'')] (hash mirror_store ''a'') = None
   \<and> getItem ref_JSON mirror_store [(''h:b'', ''2'')] ''a'' = Inr JNull"
proof -
  have never: "st_getItem (storage mirror_store) [] (hash mirror_store ''a'') = None"
    by code_simp
  have removed: "removeItem mirror_store [(''h:a'', ''1''), (''h:b'', ''2'')] ''a'' = [(''h:b'', ''2'')]"
    by code_simp
  have gone: "st_getItem (storage mirror_store) [(''h:b'', ''2'')] (hash mirror_store ''a'') = None"
    by code_simp
  from never removed gone
    getItem_absent[OF never, of ref_JSON rejecting_parse tl]
    getItem_absent[OF gone, of ref_JSON rejecting_parse tl]
  show ?thesis by blast
qed

text \<open>
  Claim C9. If the store holds a raw text at the transformed key and \<open>JSON.parse\<close> throws
  \<open>e\<close> on its decoded form, then \<open>getItem(k)\<close> ends with that same exception \<open>e\<close>:
  no value is returned in its place.
\<close>

theorem getItem_propagates_parse_error:
  assumes "st_getItem (storage this) s (hash this k) = Some raw"
    and "parse J (decrypt this raw) = Inl e"
  shows "getItem J this s k = Inl e"
  using assms by (simp add: getItem_hit)

theorem getItem_propagates_parse_error_witness:
  "st_getItem (storage plain_store) [(''a'', ''{bad'')] (hash plain_store ''a'') = Some ''{bad''
   \<and> parse ref_JSON (decrypt plain_store ''{bad'') = Inl (SyntaxError ''{bad'')
   \<and> getItem ref_JSON plain_store [(''a'', ''{bad'')] ''a'' = Inl (SyntaxError ''{bad'')"
proof -
  have stored: "st_getItem (storage plain_store) [(''a'', ''{bad'')] (hash plain_store ''a'') = Some ''{bad''"
    by code_simp
  have bad: "parse ref_JSON (decrypt plain_store ''{bad'') = Inl (SyntaxError ''{bad'')"
    by code_simp
  from stored bad getItem_propagates_parse_error[OF stored bad] show ?thesis by blast
qed

text \<open>
  Claim C8. \<open>setItem(k, v)\<close> is one write to the store, of the text
  \<open>encrypt(JSON.stringify(v))\<close> at the key \<open>hash(k)\<close>; when it succeeds on a store that
  reads back its writes, the store's entry at \<open>hash(k)\<close> is exactly that text, whatever
  was stored there before.
\<close>

theorem setItem_physical_entry:
  assumes "reads_back_writes (storage this)" and "setItem J this s k v = Inr s'"
  shows "setItem J this s k v
           = st_setItem (storage this) s (hash this k) (encrypt this (stringify J v))
       \<and> st_getItem (storage this) s' (hash this k) = Some (encrypt this (stringify J v))"
  using setItem_stored[OF assms] by (simp add: setItem_def)

theorem setItem_physical_entry_witness:
  "reads_back_writes (storage mirror_store)
   \<and> setItem ref_JSON mirror_store [(''h:a'', ''1''), (''h:b'', ''2'')] ''a'' (JStr ''hello'')
       = Inr [(''h:a'', ''\"olleh\"''), (''h:b'', ''2'')]
   \<and> hash mirror_store ''a'' = ''h:a''
   \<and> encrypt mirror_store (stringify ref_JSON (JStr ''hello'')) = ''\"olleh\"''
   \<and> st_getItem (storage mirror_store) [(''h:a'', ''\"olleh\"''), (''h:b'', ''2'')] ''h:a''
       = Some ''\"olleh\"''"
proof -
  have law: "reads_back_writes (storage mirror_store)"
    by (simp add: storage_mirror_store web_storage_reads_back_writes)
  have w: "setItem ref_JSON mirror_store [(''h:a'', ''1''), (''h:b'', ''2'')] ''a'' (JStr ''hello'')
       = Inr [(''h:a'', ''\"olleh\"''), (''h:b'', ''2'')]"
    by code_simp
  have h: "hash mirror_store ''a'' = ''h:a''"
    by code_simp
  have e: "encrypt mirror_store (stringify ref_JSON (JStr ''hello'')) = ''\"olleh\"''"
    by code_simp
  from setItem_physical_entry[OF law w] law w h e show ?thesis by simp
qed

text \<open>
  Claim C10. On a store whose \<open>setItem\<close> changes one key only, a successful
  \<open>setItem(k, v)\<close> of the facade leaves the raw text at every physical key other than
  \<open>hash(k)\<close> as it was. (A call that throws returns no new state: the store is
  unchanged.)
\<close>

theorem setItem_frame:
  assumes "writes_one_key (storage this)" and "setItem J this s k v = Inr s'"
    and "p \<noteq> hash this k"
  shows "st_getItem (storage this) s' p = st_getItem (storage this) s p"
  using assms by (rule setItem_others)

theorem setItem_frame_witness:
  "writes_one_key (storage mirror_store)
   \<and> setItem ref_JSON mirror_store [(''h:a'', ''1''), (''h:b'', ''2'')] ''a'' (JStr ''hello'')
       = Inr [(''h:a'', ''\"olleh\"''), (''h:b'', ''2'')]
   \<and> ''h:b'' \<noteq> hash mirror_store ''a''
   \<and> st_getItem (storage mirror_store) [(''h:a'', ''\"olleh\"''), (''h:b'', ''2'')] ''h:b''
       = st_getItem (storage mirror_store) [(''h:a'', ''1''), (''h:b'', ''2'')] ''h:b''"
proof -
  have law: "writes_one_key (storage mirror_store)"
    by (simp add: storage_mirror_store web_storage_writes_one_key)
  have w: "setItem ref_JSON mirror_store [(''h:a'', ''1''), (''h:b'', ''2'')] ''a'' (JStr ''hello'')
       = Inr [(''h:a'', ''\"olleh\"''), (''h:b'', ''2'')]"
    by code_simp
  have other: "''h:b'' \<noteq> hash mirror_store ''a''"
    by code_simp
  from setItem_frame[OF law w other] law w other show ?thesis by blast
qed

text \<open>
  Claim C5. On a store whose \<open>clear()\<close> removes everything, after \<open>clear()\<close> through one
  instance, every instance \<open>other\<close> that shares the store (the clearing one included) has
  length 0 and reads \<open>null\<close> at every key.
\<close>

theorem clear_empties_store:
  assumes "clears_all S" and "storage this = S" and "storage other = S"
  shows "length_ss other (clear this s) = 0 \<and> getItem J other (clear this s) k = Inr JNull"
  using assms by (simp add: clears_all_def length_ss_def clear_def getItem_miss)

theorem clear_empties_store_witness:
  "clears_all (web_storage 64)
   \<and> storage plain_store = web_storage 64
   \<and> storage mirror_store = web_storage 64
   \<and> setItems ref_JSON plain_store [] [(''a'', JNum 1)] = Inr [(''a'', ''1'')]
   \<and> setItems ref_JSON mirror_store [(''a'', ''1'')] [(''b'', JNum 2)] = Inr [(''a'', ''1''), (''h:b'', ''2'')]
   \<and> length_ss mirror_store (clear plain_store [(''a'', ''1''), (''h:b'', ''2'')]) = 0
   \<and> getItem ref_JSON mirror_store (clear plain_store [(''a'', ''1''), (''h:b'', ''2'')]) ''b'' = Inr JNull
   \<and> length_ss plain_store (clear plain_store [(''a'', ''1''), (''h:b'', ''2'')]) = 0
   \<and> getItem ref_JSON plain_store (clear plain_store [(''a'', ''1''), (''h:b'', ''2'')]) ''a'' = Inr JNull"
proof -
  have w1: "setItems ref_JSON plain_store [] [(''a'', JNum 1)] = Inr [(''a'', ''1'')]"
    by code_simp
  have w2: "setItems ref_JSON mirror_store [(''a'', ''1'')] [(''b'', JNum 2)] = Inr [(''a'', ''1''), (''h:b'', ''2'')]"
    by code_simp
  from clear_empties_store[OF web_storage_clears_all storage_plain_store storage_mirror_store,
      where s = "[(''a'', ''1''), (''h:b'', ''2'')]" and J = ref_JSON and k = "''b''"]
    clear_empties_store[OF web_storage_clears_all storage_plain_store storage_plain_store,
      where s = "[(''a'', ''1''), (''h:b'', ''2'')]" and J = ref_JSON and k = "''a''"]
    w1 w2 web_storage_clears_all[of 64] storage_plain_store storage_mirror_store
  show ?thesis by blast
qed

text \<open>
  Claim C6. On a store whose \<open>removeItem\<close> removes the entry at its key and touches no
  other, \<open>getItem(k)\<close> after \<open>removeItem(k)\<close> returns \<open>null\<close>, also after a second
  \<open>removeItem(k)\<close>; and the second call changes the raw text at no physical key \<open>p\<close>.
  \<open>removeItem\<close> has no exceptional result: nothing it calls throws.
\<close>

theorem removeItem_then_getItem:
  assumes "removes_entry (storage this)" and "removes_one_key (storage this)"
  shows "getItem J this (removeItem this s k) k = Inr JNull
       \<and> getItem J this (removeItem this (removeItem this s k) k) k = Inr JNull
       \<and> st_getItem (storage this) (removeItem this (removeItem this s k) k) p
           = st_getItem (storage this) (removeItem this s k) p"
proof (intro conjI)
  from assms(1) show "getItem J this (removeItem this s k) k = Inr JNull"
    by (simp add: removes_entry_def removeItem_def getItem_miss)
  from assms(1) show "getItem J this (removeItem this (removeItem this s k) k) k = Inr JNull"
    by (simp add: removes_entry_def removeItem_def getItem_miss)
  show "st_getItem (storage this) (removeItem this (removeItem this s k) k) p
           = st_getItem (storage this) (removeItem this s k) p"
  proof (cases "p = hash this k")
    case True
    with assms(1) show ?thesis by (simp add: removes_entry_def removeItem_def)
  next
    case False
    with assms(2) show ?thesis by (simp add: removes_one_key_def removeItem_def)
  qed
qed

theorem removeItem_then_getItem_witness:
  "removes_entry (storage mirror_store) \<and> removes_one_key (storage mirror_store)
   \<and> removeItem mirror_store [(''h:a'', ''1''), (''h:b'', ''2'')] ''a'' = [(''h:b'', ''2'')]
   \<and> removeItem mirror_store [(''h:b'', ''2'')] ''a'' = [(''h:b'', ''2'')]
   \<and> getItem ref_JSON mirror_store (removeItem mirror_store [(''h:a'', ''1''), (''h:b'', ''2'')] ''a'') ''a''
       = Inr JNull
   \<and> getItem ref_JSON mirror_store
        (removeItem mirror_store (removeItem mirror_store [(''h:a'', ''1''), (''h:b'', ''2'')] ''a'') ''a'') ''a''
       = Inr JNull
   \<and> st_getItem (storage mirror_store)
        (removeItem mirror_store (removeItem mirror_store [(''h:a'', ''1''), (''h:b'', ''2'')] ''a'') ''a'') ''h:b''
       = st_getItem (storage mirror_store)
        (removeItem mirror_store [(''h:a'', ''1''), (''h:b'', ''2'')] ''a'') ''h:b''"
proof -
  have l1: "removes_entry (storage mirror_store)"
    by (simp add: storage_mirror_store web_storage_removes_entry)
  have l2: "removes_one_key (storage mirror_store)"
    by (simp add: storage_mirror_store web_storage_removes_one_key)
  have r1: "removeItem mirror_store [(''h:a'', ''1''), (''h:b'', ''2'')] ''a'' = [(''h:b'', ''2'')]"
    by code_simp
  have r2: "removeItem mirror_store [(''h:b'', ''2'')] ''a'' = [(''h:b'', ''2'')]"
    by code_simp
  from removeItem_then_getItem[OF l1 l2, of ref_JSON "[(''h:a'', ''1''), (''h:b'', ''2'')]" "''a''" "''h:b''"]
    l1 l2 r1 r2
  show ?thesis by simp
qed

section \<open>Reading through the enumeration\<close>

lemma array_map_Inr:
  "array_map f xs = Inr ys \<Longrightarrow>
   length ys = length xs \<and> (\<forall>i<length xs. f (xs ! i) = Inr (ys ! i))"
proof (induction xs arbitrary: ys)
  case Nil
  then show ?case by simp
next
  case (Cons x xs)
  from Cons.prems obtain y zs where fx: "f x = Inr y" and rest: "array_map f xs = Inr zs"
    and ys: "ys = y # zs"
    by (auto split: sum.splits)
  from Cons.IH[OF rest] fx ys show ?case
    by (auto simp: nth_Cons split: nat.splits)
qed

lemma array_map_all_Inr:
  "(\<And>x. x \<in> set xs \<Longrightarrow> f x = Inr (g x)) \<Longrightarrow> array_map f xs = Inr (map g xs)"
  by (induction xs) simp_all

lemma values_nth:
  assumes "values_ss J this s = Inr vs" and "i < length (keys this s)"
  shows "getItem J this s (keys this s ! i) = Inr (vs ! i)"
  using array_map_Inr[OF assms(1)[unfolded values_ss_def]] assms(2) by simp

lemma entries_nth:
  assumes "entries J this s = Inr es" and "i < length (keys this s)"
  shows "getItem J this s (keys this s ! i) = Inr (snd (es ! i)) \<and> fst (es ! i) = keys this s ! i"
proof -
  from array_map_Inr[OF assms(1)[unfolded entries_def]] assms(2)
  have "(case getItem J this s (keys this s ! i) of Inl e \<Rightarrow> Inl e
         | Inr v \<Rightarrow> Inr (keys this s ! i, v)) = Inr (es ! i)"
    by simp
  then show ?thesis by (cases "es ! i") (auto split: sum.splits)
qed

text \<open>
  Claim C3, as amended. \<open>values()\<close> and \<open>entries()\<close> call \<open>getItem\<close> with each
  physical key \<open>p\<close> that \<open>keys()\<close> returns, so the key transform is applied to an
  already transformed key and the store is read at \<open>t(p)\<close>. Whenever the store has no
  entry at \<open>t(p)\<close>, that lookup is \<open>null\<close>: \<open>getItem(p)\<close> returns \<open>null\<close>, and when
  \<open>values()\<close> (\<open>entries()\<close>) returns, its element at the position of \<open>p\<close> is \<open>null\<close>
  (the pair of \<open>p\<close> and \<open>null\<close>). That \<open>t(p)\<close> differs from \<open>p\<close> is not enough for this.
\<close>

theorem values_entries_lookup_miss:
  assumes "i < length (keys this s)"
    and "st_getItem (storage this) s (hash this (keys this s ! i)) = None"
  shows "getItem J this s (keys this s ! i) = Inr JNull
       \<and> (values_ss J this s = Inr vs \<longrightarrow> vs ! i = JNull)
       \<and> (entries J this s = Inr es \<longrightarrow> es ! i = (keys this s ! i, JNull))"
proof (intro conjI impI)
  show miss: "getItem J this s (keys this s ! i) = Inr JNull"
    using assms(2) by (rule getItem_miss)
  { assume "values_ss J this s = Inr vs"
    from values_nth[OF this assms(1)] miss show "vs ! i = JNull" by simp }
  { assume "entries J this s = Inr es"
    from entries_nth[OF this assms(1)] miss show "es ! i = (keys this s ! i, JNull)"
      by (cases "es ! i") simp }
qed

theorem values_entries_lookup_miss_witness:
  "keys chained_store [(''ax'', ''1''), (''axx'', ''2'')] = [''ax'', ''axx'']
   \<and> st_getItem (storage chained_store) [(''ax'', ''1''), (''axx'', ''2'')]
        (hash chained_store ([''ax'', ''axx''] ! 1)) = None
   \<and> getItem ref_JSON chained_store [(''ax'', ''1''), (''axx'', ''2'')] ''axx'' = Inr JNull
   \<and> values_ss ref_JSON chained_store [(''ax'', ''1''), (''axx'', ''2'')] = Inr [JNum 2, JNull]
   \<and> [JNum 2, JNull] ! 1 = (JNull :: int json)
   \<and> entries ref_JSON chained_store [(''ax'', ''1''), (''axx'', ''2'')]
       = Inr [(''ax'', JNum 2), (''axx'', JNull)]
   \<and> [(''ax'', JNum 2), (''axx'', JNull)] ! 1 = (''axx'', JNull :: int json)"
proof -
  have ks: "keys chained_store [(''ax'', ''1''), (''axx'', ''2'')] = [''ax'', ''axx'']"
    by (simp add: keys_eq chained_store_def SecureStorage_new_def web_storage_key_list)
  have i: "1 < length (keys chained_store [(''ax'', ''1''), (''axx'', ''2'')])"
    by (simp add: ks)
  have none: "st_getItem (storage chained_store) [(''ax'', ''1''), (''axx'', ''2'')]
        (hash chained_store (keys chained_store [(''ax'', ''1''), (''axx'', ''2'')] ! 1)) = None"
    unfolding ks by code_simp
  have vs: "values_ss ref_JSON chained_store [(''ax'', ''1''), (''axx'', ''2'')] = Inr [JNum 2, JNull]"
    unfolding values_ss_def ks by code_simp
  have es: "entries ref_JSON chained_store [(''ax'', ''1''), (''axx'', ''2'')]
       = Inr [(''ax'', JNum 2), (''axx'', JNull)]"
    unfolding entries_def ks by code_simp
  from values_entries_lookup_miss[OF i none, of ref_JSON "[JNum 2, JNull]" "[(''ax'', JNum 2), (''axx'', JNull)]"]
    ks none vs es
  show ?thesis by simp
qed

text \<open>
  The claim as first stated fails when the doubly transformed key is itself a stored
  physical key. With \<open>suffix_hash\<close>, writing \<open>1\<close> under \<open>a\<close> and \<open>2\<close> under \<open>ax\<close>
  stores the physical keys \<open>ax\<close> and \<open>axx\<close>. The entry at \<open>ax\<close> has
  \<open>t(t(a)) = axx\<close>, different from \<open>t(a) = ax\<close>, yet \<open>values()\<close> yields \<open>2\<close> for it,
  the value stored at \<open>axx\<close>, not \<open>null\<close>.
\<close>

theorem values_null_for_every_rehashed_key_counterexample:
  "setItems ref_JSON chained_store [] [(''a'', JNum 1), (''ax'', JNum 2)]
       = Inr [(''ax'', ''1''), (''axx'', ''2'')]
   \<and> keys chained_store [(''ax'', ''1''), (''axx'', ''2'')] = [''ax'', ''axx'']
   \<and> hash chained_store ''a'' = ''ax''
   \<and> hash chained_store (hash chained_store ''a'') \<noteq> hash chained_store ''a''
   \<and> values_ss ref_JSON chained_store [(''ax'', ''1''), (''axx'', ''2'')] = Inr [JNum 2, JNull]
   \<and> entries ref_JSON chained_store [(''ax'', ''1''), (''axx'', ''2'')]
       = Inr [(''ax'', JNum 2), (''axx'', JNull)]"
proof -
  have ks: "keys chained_store [(''ax'', ''1''), (''axx'', ''2'')] = [''ax'', ''axx'']"
    by (simp add: keys_eq chained_store_def SecureStorage_new_def web_storage_key_list)
  have w: "setItems ref_JSON chained_store [] [(''a'', JNum 1), (''ax'', JNum 2)]
       = Inr [(''ax'', ''1''), (''axx'', ''2'')]"
    by code_simp
  have h1: "hash chained_store ''a'' = ''ax''"
    by code_simp
  have h2: "hash chained_store (hash chained_store ''a'') \<noteq> hash chained_store ''a''"
    by code_simp
  have vs: "values_ss ref_JSON chained_store [(''ax'', ''1''), (''axx'', ''2'')] = Inr [JNum 2, JNull]"
    unfolding values_ss_def ks by code_simp
  have es: "entries ref_JSON chained_store [(''ax'', ''1''), (''axx'', ''2'')]
       = Inr [(''ax'', JNum 2), (''axx'', JNull)]"
    unfolding entries_def ks by code_simp
  from w ks h1 h2 vs es show ?thesis by blast
qed


section \<open>Writing several entries and reading them all\<close>

lemma map_of_rev_distinct:
  assumes "distinct (map fst xs)"
  shows "map_of (rev xs) = map_of xs"
proof (rule ext)
  fix a
  from assms have d: "distinct (map fst (rev xs))"
    by (simp add: rev_map[symmetric])
  show "map_of (rev xs) a = map_of xs a"
  proof (cases "map_of xs a")
    case None
    then have "a \<notin> fst ` set xs" by (simp add: map_of_eq_None_iff)
    then have "map_of (rev xs) a = None" by (simp add: map_of_eq_None_iff)
    with None show ?thesis by simp
  next
    case (Some b)
    then have "(a, b) \<in> set (rev xs)" by (auto dest: map_of_SomeD)
    with d have "map_of (rev xs) a = Some b" by (rule map_of_is_SomeI)
    with Some show ?thesis by simp
  qed
qed

lemma setItem_updates:
  assumes "reads_back_writes (storage this)" and "writes_one_key (storage this)"
    and "setItem J this s k v = Inr s'"
  shows "st_getItem (storage this) s'
           = (st_getItem (storage this) s)(hash this k \<mapsto> encrypt this (stringify J v))"
proof (rule ext)
  fix p
  show "st_getItem (storage this) s' p
          = ((st_getItem (storage this) s)(hash this k \<mapsto> encrypt this (stringify J v))) p"
    using setItem_stored[OF assms(1,3)] setItem_others[OF assms(2,3), of p]
    by (cases "p = hash this k") simp_all
qed

lemma setItems_lookup:
  assumes "reads_back_writes (storage this)" and "writes_one_key (storage this)"
  shows "setItems J this s0 kvs = Inr s \<Longrightarrow>
         st_getItem (storage this) s
           = st_getItem (storage this) s0 ++ map_of (rev (map (physical_entry J this) kvs))"
proof (induction kvs arbitrary: s0)
  case Nil
  then show ?case by simp
next
  case (Cons kv kvs)
  obtain k v where kv: "kv = (k, v)" by (cases kv)
  from Cons.prems kv obtain s1 where w: "setItem J this s0 k v = Inr s1"
    and rest: "setItems J this s1 kvs = Inr s"
    by (auto split: sum.splits)
  have "st_getItem (storage this) s
          = (st_getItem (storage this) s0)(hash this k \<mapsto> encrypt this (stringify J v))
              ++ map_of (rev (map (physical_entry J this) kvs))"
    by (simp only: Cons.IH[OF rest] setItem_updates[OF assms w])
  moreover have "physical_entry J this (k, v) = (hash this k, encrypt this (stringify J v))"
    by (simp add: physical_entry_def)
  ultimately show ?case
    by (simp add: kv)
qed

text \<open>
  Claim C2, as amended. Let the key transform be idempotent, let decoder and
  deserializer invert encoder and serializer on every written value, and let the store
  keep its contract. After writing \<open>N\<close> logical entries \<^emph>\<open>whose transformed keys are
  pairwise distinct\<close> into a store with no entry, \<open>entries()\<close> returns exactly \<open>N\<close>
  pairs, and they are, as a set, the pairs of \<open>hash(k)\<close> and \<open>v\<close> for the written
  \<open>(k, v)\<close>: each pair's value is the one written under the logical key whose transform
  is the pair's physical key. The store's enumeration order is arbitrary.
\<close>

theorem entries_after_writes:
  assumes rb: "reads_back_writes (storage this)" and fr: "writes_one_key (storage this)"
    and idem: "idempotent (hash this)"
    and inv: "\<forall>v \<in> snd ` set kvs.
                decrypt this (encrypt this (stringify J v)) = stringify J v
                \<and> parse J (stringify J v) = Inr v"
    and empty: "\<forall>p. st_getItem (storage this) s0 p = None"
    and dist: "distinct (map (hash this \<circ> fst) kvs)"
    and writes: "setItems J this s0 kvs = Inr s"
    and enum: "enumerates (storage this) s"
  shows "\<exists>es. entries J this s = Inr es \<and> length es = length kvs
            \<and> set es = (\<lambda>(k, v). (hash this k, v)) ` set kvs"
proof -
  define P where "P = map (physical_entry J this) kvs"
  define L where "L = map (\<lambda>(k, v). (hash this k, v)) kvs"
  define K where "K = keys this s"
  have fstP: "map fst P = map (hash this \<circ> fst) kvs"
    by (simp add: P_def physical_entry_def comp_def)
  have fstL: "map fst L = map (hash this \<circ> fst) kvs"
    by (simp add: L_def comp_def case_prod_beta)
  have dP: "distinct (map fst P)" and dL: "distinct (map fst L)"
    using dist by (simp_all add: fstP fstL)
  have "st_getItem (storage this) s0 = Map.empty"
    using empty by (simp add: fun_eq_iff)
  with setItems_lookup[OF rb fr writes]
  have look: "st_getItem (storage this) s = map_of P"
    by (simp add: P_def[symmetric] map_of_rev_distinct[OF dP])
  have K: "distinct K" "set K = set (map (hash this \<circ> fst) kvs)"
    using enum fstP
    by (simp_all add: enumerates_def K_def keys_eq look dom_map_of_conv_image_fst
        flip: set_map)
  have len: "length K = length kvs"
  proof -
    have "length K = card (set K)" using K(1) by (simp add: distinct_card)
    also have "\<dots> = card (set (map (hash this \<circ> fst) kvs))" by (simp only: K(2))
    also have "\<dots> = length (map (hash this \<circ> fst) kvs)" using dist by (rule distinct_card)
    finally show ?thesis by simp
  qed
  have read: "getItem J this s p = Inr (the (map_of L p))" if "p \<in> set K" for p
  proof -
    from that K(2) obtain k v where kv: "(k, v) \<in> set kvs" and p: "p = hash this k"
      by auto
    have hp: "hash this p = p"
      using idem by (simp add: p idempotent_def)
    have "(p, encrypt this (stringify J v)) \<in> set P"
      using kv by (force simp: P_def p physical_entry_def)
    then have "st_getItem (storage this) s (hash this p) = Some (encrypt this (stringify J v))"
      using dP by (simp add: look hp)
    moreover have "decrypt this (encrypt this (stringify J v)) = stringify J v"
      and "parse J (stringify J v) = Inr v"
      using inv kv by force+
    ultimately have "getItem J this s p = Inr v"
      by (simp add: getItem_hit)
    moreover have "(p, v) \<in> set L"
      using kv by (force simp: L_def p)
    then have "map_of L p = Some v"
      using dL by simp
    ultimately show ?thesis by simp
  qed
  define es where "es = map (\<lambda>p. (p, the (map_of L p))) K"
  have "entries J this s = Inr es"
    unfolding entries_def es_def K_def[symmetric]
    by (rule array_map_all_Inr) (simp add: read)
  moreover have "length es = length kvs"
    by (simp add: es_def len)
  moreover have "set es = set L"
  proof
    show "set es \<subseteq> set L"
    proof
      fix e assume "e \<in> set es"
      then obtain p where pK: "p \<in> set K" and e: "e = (p, the (map_of L p))"
        by (auto simp: es_def)
      from pK K(2) fstL have "p \<in> fst ` set L"
        by (simp flip: set_map)
      then obtain v where "(p, v) \<in> set L" by auto
      moreover from this dL have "map_of L p = Some v" by simp
      ultimately show "e \<in> set L" by (simp add: e)
    qed
  next
    show "set L \<subseteq> set es"
    proof
      fix e assume eL: "e \<in> set L"
      obtain p v where e: "e = (p, v)" by (cases e)
      from eL dL have "map_of L p = Some v" by (simp add: e)
      moreover from eL have "p \<in> set (map fst L)" by (force simp: e)
      then have "p \<in> set K" by (simp only: K(2) fstL)
      ultimately show "e \<in> set es" by (force simp: es_def e)
    qed
  qed
  then have "set es = (\<lambda>(k, v). (hash this k, v)) ` set kvs"
    by (simp add: L_def)
  ultimately show ?thesis by blast
qed


lemma tag_hash_idempotent: "idempotent tag_hash"
  by (simp add: idempotent_def tag_hash_def)

lemma hash_mirror_store: "hash mirror_store = tag_hash"
  by (simp add: mirror_store_def SecureStorage_new_def or_through_def)

lemma hash_colliding_store: "hash colliding_store = const_hash"
  by (simp add: colliding_store_def SecureStorage_new_def or_through_def)

lemma storage_colliding_store: "storage colliding_store = web_storage 64"
  by (simp add: colliding_store_def SecureStorage_new_def)

theorem entries_after_writes_witness:
  "reads_back_writes (storage mirror_store) \<and> writes_one_key (storage mirror_store)
   \<and> idempotent (hash mirror_store)
   \<and> decrypt mirror_store (encrypt mirror_store (stringify ref_JSON (JObj [(''x'', JNum 1)])))
       = stringify ref_JSON (JObj [(''x'', JNum 1)])
   \<and> parse ref_JSON (stringify ref_JSON (JObj [(''x'', JNum 1)])) = Inr (JObj [(''x'', JNum 1)])
   \<and> decrypt mirror_store (encrypt mirror_store (stringify ref_JSON (JStr ''hello'')))
       = stringify ref_JSON (JStr ''hello'')
   \<and> parse ref_JSON (stringify ref_JSON (JStr ''hello'')) = Inr (JStr ''hello'')
   \<and> (\<forall>p. st_getItem (storage mirror_store) [] p = None)
   \<and> distinct (map (hash mirror_store \<circ> fst)
        [(''a'', JObj [(''x'', JNum 1)] :: int json), (''b'', JStr ''hello'')])
   \<and> setItems ref_JSON mirror_store [] [(''a'', JObj [(''x'', JNum 1)]), (''b'', JStr ''hello'')]
       = Inr [(''h:a'', ''}1:\"x\"{''), (''h:b'', ''\"olleh\"'')]
   \<and> enumerates (storage mirror_store) [(''h:a'', ''}1:\"x\"{''), (''h:b'', ''\"olleh\"'')]
   \<and> entries ref_JSON mirror_store [(''h:a'', ''}1:\"x\"{''), (''h:b'', ''\"olleh\"'')]
       = Inr [(''h:a'', JObj [(''x'', JNum 1)]), (''h:b'', JStr ''hello'')]
   \<and> (\<exists>es. entries ref_JSON mirror_store [(''h:a'', ''}1:\"x\"{''), (''h:b'', ''\"olleh\"'')] = Inr es
          \<and> length es = length [(''a'', JObj [(''x'', JNum 1)] :: int json), (''b'', JStr ''hello'')]
          \<and> set es = (\<lambda>(k, v). (hash mirror_store k, v))
                        ` set [(''a'', JObj [(''x'', JNum 1)]), (''b'', JStr ''hello'')])"
proof -
  have rb: "reads_back_writes (storage mirror_store)"
    by (simp add: storage_mirror_store web_storage_reads_back_writes)
  have fr: "writes_one_key (storage mirror_store)"
    by (simp add: storage_mirror_store web_storage_writes_one_key)
  have idem: "idempotent (hash mirror_store)"
    by (simp add: hash_mirror_store tag_hash_idempotent)
  have c1: "decrypt mirror_store (encrypt mirror_store (stringify ref_JSON (JObj [(''x'', JNum 1)])))
       = stringify ref_JSON (JObj [(''x'', JNum 1)])"
    by code_simp
  have j1: "parse ref_JSON (stringify ref_JSON (JObj [(''x'', JNum 1)])) = Inr (JObj [(''x'', JNum 1)])"
    by code_simp
  have c2: "decrypt mirror_store (encrypt mirror_store (stringify ref_JSON (JStr ''hello'')))
       = stringify ref_JSON (JStr ''hello'')"
    by code_simp
  have j2: "parse ref_JSON (stringify ref_JSON (JStr ''hello'')) = Inr (JStr ''hello'')"
    by code_simp
  have inv: "\<forall>v \<in> snd ` set [(''a'', JObj [(''x'', JNum 1)]), (''b'', JStr ''hello'')].
                decrypt mirror_store (encrypt mirror_store (stringify ref_JSON v)) = stringify ref_JSON v
                \<and> parse ref_JSON (stringify ref_JSON v) = Inr v"
    using c1 j1 c2 j2 by simp
  have empty: "\<forall>p. st_getItem (storage mirror_store) [] p = None"
    by (simp add: storage_mirror_store web_storage_def)
  have dist: "distinct (map (hash mirror_store \<circ> fst)
        [(''a'', JObj [(''x'', JNum 1)] :: int json), (''b'', JStr ''hello'')])"
    by (simp add: hash_mirror_store tag_hash_def)
  have writes: "setItems ref_JSON mirror_store [] [(''a'', JObj [(''x'', JNum 1)]), (''b'', JStr ''hello'')]
       = Inr [(''h:a'', ''}1:\"x\"{''), (''h:b'', ''\"olleh\"'')]"
    by code_simp
  have enum: "enumerates (storage mirror_store) [(''h:a'', ''}1:\"x\"{''), (''h:b'', ''\"olleh\"'')]"
    unfolding storage_mirror_store by (rule web_storage_enumerates) simp
  have ks: "keys mirror_store [(''h:a'', ''}1:\"x\"{''), (''h:b'', ''\"olleh\"'')] = [''h:a'', ''h:b'']"
    by (simp add: keys_eq storage_mirror_store web_storage_key_list)
  have es: "entries ref_JSON mirror_store [(''h:a'', ''}1:\"x\"{''), (''h:b'', ''\"olleh\"'')]
       = Inr [(''h:a'', JObj [(''x'', JNum 1)]), (''h:b'', JStr ''hello'')]"
    unfolding entries_def ks by code_simp
  from entries_after_writes[OF rb fr idem inv empty dist writes enum]
    rb fr idem c1 j1 c2 j2 empty dist writes enum es
  show ?thesis by - (intro conjI; assumption)
qed

text \<open>
  The claim as first stated fails for an idempotent transform that is not injective on
  the written keys. \<open>const_hash\<close> is idempotent; writing under the two distinct logical
  keys \<open>a\<close> and \<open>b\<close> leaves one physical entry, and \<open>entries()\<close> returns one pair,
  not two.
\<close>

theorem entries_count_with_colliding_keys_counterexample:
  "idempotent (hash colliding_store)
   \<and> decrypt colliding_store (encrypt colliding_store ''1'') = ''1''
   \<and> decrypt colliding_store (encrypt colliding_store ''2'') = ''2''
   \<and> distinct (map fst [(''a'', JNum 1 :: int json), (''b'', JNum 2)])
   \<and> setItems ref_JSON colliding_store [] [(''a'', JNum 1), (''b'', JNum 2)] = Inr [(''h'', ''2'')]
   \<and> enumerates (storage colliding_store) [(''h'', ''2'')]
   \<and> entries ref_JSON colliding_store [(''h'', ''2'')] = Inr [(''h'', JNum 2)]
   \<and> length [(''h'', JNum 2 :: int json)] \<noteq> length [(''a'', JNum 1 :: int json), (''b'', JNum 2)]"
proof -
  have idem: "idempotent (hash colliding_store)"
    by (simp add: hash_colliding_store idempotent_def const_hash_def)
  have c1: "decrypt colliding_store (encrypt colliding_store ''1'') = ''1''"
    by code_simp
  have c2: "decrypt colliding_store (encrypt colliding_store ''2'') = ''2''"
    by code_simp
  have writes: "setItems ref_JSON colliding_store [] [(''a'', JNum 1), (''b'', JNum 2)] = Inr [(''h'', ''2'')]"
    by code_simp
  have enum: "enumerates (storage colliding_store) [(''h'', ''2'')]"
    unfolding storage_colliding_store by (rule web_storage_enumerates) simp
  have ks: "keys colliding_store [(''h'', ''2'')] = [''h'']"
    by (simp add: keys_eq storage_colliding_store web_storage_key_list)
  have es: "entries ref_JSON colliding_store [(''h'', ''2'')] = Inr [(''h'', JNum 2)]"
    unfolding entries_def ks by code_simp
  from idem c1 c2 writes enum es show ?thesis by simp
qed

end
